theory Spec2Isabelle
  imports Main
begin

section \<open>The license server of V-Nashak (server.js)\<close>

text \<open>
  The server keeps two in-memory sets of user IDs (with one of them mirrored in a JSON
  file), a MongoDB collection of license documents, and answers three POST routes. A
  request handler is an \<^verbatim>\<open>async\<close> function: it runs up to an \<^verbatim>\<open>await\<close>, and when the
  awaited operation has resolved it runs on to the next one or to its answer, while other
  requests take their turns in between. Each such piece is a function from the server
  state and the outcome of the awaited operation (a draw, an answer or a rejection of the
  database, of the mail transport or of the file system, the clock) to what the handler
  does next, the new state and the list of store and mail operations attempted. The
  handler as a whole, run without another request in between, is the composition of its
  pieces; a run of the server interleaves the pieces of the requests in flight.
\<close>

subsection \<open>Data\<close>

text \<open>
  Modelled from the spec: the schema \<^verbatim>\<open>models/License.js\<close> is not among the sources.
  The status of a license is the enumeration of the spec's data model; its two values are
  the ones server.js writes to the \<^verbatim>\<open>status\<close> field and compares it with.
\<close>

datatype license_status = ASSIGNED | ACTIVATED

text \<open>
  Modelled from the spec: the schema \<^verbatim>\<open>models/License.js\<close> is not among the sources.
  A document of the \<^verbatim>\<open>License\<close> collection has the fields that server.js reads and
  writes, under the names server.js uses; \<^verbatim>\<open>machineId\<close> and \<^verbatim>\<open>activatedAt\<close> are
  null until activation, as in the spec's data model, and server.js reads neither before
  the status is ACTIVATED. The timestamp is a number of the clock.
\<close>

record license =
  email :: string
  userId :: string
  name :: string
  phoneNumber :: string
  licenseKey :: string
  status :: license_status
  machineId :: "string option"
  activatedAt :: "nat option"

text \<open>
  The content of \<^verbatim>\<open>used-user-ids.json\<close>: no file, a file that the start of the process
  cannot use (empty, or text that \<^verbatim>\<open>JSON.parse\<close> rejects, as a write cut short leaves
  it), or the array the server wrote.
\<close>

datatype used_file = NoFile | Unreadable | Ids "string list"

text \<open>
  The process state: the sets \<^verbatim>\<open>validUserIds\<close> and \<^verbatim>\<open>usedUserIds\<close> (a JavaScript
  \<^verbatim>\<open>Set\<close> keeps insertion order, so each is a list without repetition), the content of
  \<^verbatim>\<open>used-user-ids.json\<close>, the license collection in insertion order, and whether both
  \<^verbatim>\<open>EMAIL_USER\<close> and \<^verbatim>\<open>EMAIL_PASS\<close> are set.
\<close>

record server =
  validUserIds :: "string list"
  usedUserIds :: "string list"
  used_ids_file :: used_file
  licenses :: "license list"
  email_configured :: bool

text \<open>What \<^verbatim>\<open>res.status(c).json({status, message, licenseKey})\<close> sends.\<close>

record response =
  http_code :: nat
  res_status :: string
  message :: string
  res_licenseKey :: "string option"

text \<open>The operations on the stores and the mail transport that a handler attempts.\<close>

datatype event =
    is_DbFind: DbFind string
  | is_DbInsert: DbInsert license
  | is_DbUpdate: DbUpdate license
  | is_FileWrite: FileWrite "string list"
  | is_SendMail: SendMail string string

datatype error = DatabaseError | FileWriteError

subsection \<open>The sets of user IDs\<close>

definition has :: "string list \<Rightarrow> string \<Rightarrow> bool" where
  "has ids x = (x \<in> set ids)"

definition add :: "string list \<Rightarrow> string \<Rightarrow> string list" where
  "add ids x = (if has ids x then ids else ids @ [x])"

definition new_Set :: "string list \<Rightarrow> string list" where
  "new_Set xs = foldl add [] xs"

definition isUserIdValid :: "server \<Rightarrow> string \<Rightarrow> bool" where
  "isUserIdValid s u = has (validUserIds s) u"

definition isUserIdAlreadyUsed :: "server \<Rightarrow> string \<Rightarrow> bool" where
  "isUserIdAlreadyUsed s u = has (usedUserIds s) u"

text \<open>
  \<^verbatim>\<open>fs.writeFileSync\<close> opens the file for writing, which empties it, and then writes:
  it completes, or it throws before the file is opened and the file is as it was, or it
  throws after the file was emptied and leaves it empty or cut short.
\<close>

datatype write_outcome = Written | Refused | CutShort

text \<open>
  \<^verbatim>\<open>markUserIdAsUsed\<close> adds to the set first and writes the file second; when
  \<^verbatim>\<open>writeFileSync\<close> throws, the set has already changed.
\<close>

definition markUserIdAsUsed :: "server \<Rightarrow> string \<Rightarrow> write_outcome \<Rightarrow> server \<times> error option" where
  "markUserIdAsUsed s u written =
     (let used = add (usedUserIds s) u in
      case written of
        Written \<Rightarrow> (s\<lparr>usedUserIds := used, used_ids_file := Ids used\<rparr>, None)
      | Refused \<Rightarrow> (s\<lparr>usedUserIds := used\<rparr>, Some FileWriteError)
      | CutShort \<Rightarrow> (s\<lparr>usedUserIds := used, used_ids_file := Unreadable\<rparr>, Some FileWriteError))"

record validation =
  valid :: bool
  v_message :: "string option"

definition validateUserIdDirectAndUnused :: "server \<Rightarrow> string \<Rightarrow> validation" where
  "validateUserIdDirectAndUnused s u =
     (if \<not> isUserIdValid s u then
        \<lparr>valid = False, v_message = Some (''User ID '' @ [CHR 0x27] @ u @ [CHR 0x27] @ '' is not a valid ID.'')\<rparr>
      else if isUserIdAlreadyUsed s u then
        \<lparr>valid = False, v_message = Some (''User ID '' @ [CHR 0x27] @ u @ [CHR 0x27] @ '' has already been used.'')\<rparr>
      else \<lparr>valid = True, v_message = None\<rparr>)"

subsection \<open>The license collection\<close>

text \<open>
  \<^verbatim>\<open>License.findOne({ licenseKey: key })\<close> answers the first document with that key.
  Documents are never deleted, so the place of a document in the collection identifies
  it, as its \<^verbatim>\<open>_id\<close> does: \<open>position\<close> is the place of the document that
  \<open>findOne\<close> answers.
\<close>

definition findOne :: "license list \<Rightarrow> string \<Rightarrow> license option" where
  "findOne db k = find (\<lambda>l. licenseKey l = k) db"

definition position :: "string \<Rightarrow> license list \<Rightarrow> nat" where
  "position k db = length (takeWhile (\<lambda>l. licenseKey l \<noteq> k) db)"

subsection \<open>Key generation\<close>

text \<open>
  A draw is the text that \<^verbatim>\<open>Math.random().toString(36)\<close> evaluates to: \<^verbatim>\<open>0\<close> for
  the number 0 and otherwise \<^verbatim>\<open>0.\<close> followed by the base-36 digits that print the
  number, as many as it takes (\<^verbatim>\<open>0.i\<close> for 0.5).
\<close>

type_synonym draw = string

text \<open>
  \<^verbatim>\<open>s.substring(a, b)\<close> for \<open>a \<le> b\<close>: the characters from index \<open>a\<close> up to, not
  including, index \<open>b\<close>, as far as the string reaches. \<^verbatim>\<open>toUpperCase\<close> is applied to
  digits and lower-case letters only, where it changes the letters a to z.
\<close>

definition substring :: "string \<Rightarrow> nat \<Rightarrow> nat \<Rightarrow> string" where
  "substring s a b = take (b - a) (drop a s)"

definition upper_char :: "char \<Rightarrow> char" where
  "upper_char c =
     (let n = (of_char c :: nat) in if 97 \<le> n \<and> n \<le> 122 then char_of (n - 32) else c)"

definition toUpperCase :: "string \<Rightarrow> string" where
  "toUpperCase s = map upper_char s"

definition segment :: "draw \<Rightarrow> string" where
  "segment d = toUpperCase (substring d 2 6)"

definition make_key :: "draw \<Rightarrow> draw \<Rightarrow> draw \<Rightarrow> string" where
  "make_key d1 d2 d3 = segment d1 @ ''-'' @ segment d2 @ ''-'' @ segment d3"

text \<open>
  One turn of the \<^verbatim>\<open>do ... while (keyExists)\<close> loop takes three draws, in the order
  of the three \<^verbatim>\<open>segment()\<close> calls, and one answer of the database: \<open>answered\<close>
  says whether \<^verbatim>\<open>findOne\<close> answers or rejects.
\<close>

record turn =
  draw1 :: draw
  draw2 :: draw
  draw3 :: draw
  answered :: bool

definition candidate :: "turn \<Rightarrow> string" where
  "candidate t = make_key (draw1 t) (draw2 t) (draw3 t)"

text \<open>
  The loop has no bound of its own: it runs for as long as each candidate is found. The
  list of turns the outside world supplies is the fuel, and \<open>None\<close> says that the loop
  has not returned within it.
\<close>

fun generateUniqueLicenseKey :: "license list \<Rightarrow> turn list \<Rightarrow> (error + string) option \<times> event list" where
  "generateUniqueLicenseKey db [] = (None, [])"
| "generateUniqueLicenseKey db (t # ts) =
     (let key = candidate t in
      if \<not> answered t then (Some (Inl DatabaseError), [DbFind key])
      else (case findOne db key of
              None \<Rightarrow> (Some (Inr key), [DbFind key])
            | Some existingLicense \<Rightarrow>
                (case generateUniqueLicenseKey db ts of (r, tr) \<Rightarrow> (r, DbFind key # tr))))"

subsection \<open>Responses and request fields\<close>

definition json :: "nat \<Rightarrow> string \<Rightarrow> string \<Rightarrow> string option \<Rightarrow> response" where
  "json c st msg k = \<lparr>http_code = c, res_status = st, message = msg, res_licenseKey = k\<rparr>"

text \<open>
  A field of the request body is absent (\<open>None\<close>) or a string. \<^verbatim>\<open>!field\<close> holds of
  an absent field and of the empty string.
\<close>

definition falsy :: "string option \<Rightarrow> bool" where
  "falsy v = (v = None \<or> v = Some [])"

subsection \<open>POST /send-license\<close>

definition internal_error :: response where
  "internal_error = json 500 ''ERROR'' ''An internal server error occurred.'' None"

text \<open>
  \<^verbatim>\<open>new License({ email, userId, name, phoneNumber, licenseKey, status: "ASSIGNED" })\<close>
  is the document before it is saved.
\<close>

definition new_License :: "string \<Rightarrow> string \<Rightarrow> string \<Rightarrow> string \<Rightarrow> string \<Rightarrow> license" where
  "new_License e u n p newLicenseKey =
     \<lparr>email = e, userId = u, name = n, phoneNumber = p, licenseKey = newLicenseKey,
      status = ASSIGNED, machineId = None, activatedAt = None\<rparr>"

text \<open>
  The handler from \<^verbatim>\<open>await newLicense.save()\<close> (line 200) to the next await or to the
  answer. A rejected save goes to the \<^verbatim>\<open>catch\<close>. An accepted one has inserted the
  document; without mail credentials the user ID is marked used and the key is sent in
  the answer (\<open>Inl\<close>), otherwise \<^verbatim>\<open>sendMail\<close> is called and awaited (\<open>Inr\<close>).
\<close>

definition issue_save ::
  "server \<Rightarrow> license \<Rightarrow> bool \<Rightarrow> write_outcome \<Rightarrow> (response + license) \<times> server \<times> event list" where
  "issue_save s newLicense accepted written =
     (if \<not> accepted then (Inl internal_error, s, [DbInsert newLicense])
      else
        (let s1 = s\<lparr>licenses := licenses s @ [newLicense]\<rparr> in
         if \<not> email_configured s then
           (case markUserIdAsUsed s1 (userId newLicense) written of
              (s2, Some err) \<Rightarrow>
                (Inl internal_error, s2, [DbInsert newLicense, FileWrite (usedUserIds s2)])
            | (s2, None) \<Rightarrow>
                (Inl (json 200 ''SUCCESS''
                   ''User ID validated, but email is not configured on the server.''
                   (Some (licenseKey newLicense))), s2,
                 [DbInsert newLicense, FileWrite (usedUserIds s2)]))
         else (Inr newLicense, s1, [DbInsert newLicense])))"

text \<open>
  The handler from \<^verbatim>\<open>await transporter.sendMail(mailOptions)\<close> (line 230) to the
  answer: a rejection goes to the \<^verbatim>\<open>catch\<close>, before \<^verbatim>\<open>markUserIdAsUsed\<close> is reached.
\<close>

definition issue_mail ::
  "server \<Rightarrow> license \<Rightarrow> bool \<Rightarrow> write_outcome \<Rightarrow> response \<times> server \<times> event list" where
  "issue_mail s newLicense delivered written =
     (if \<not> delivered then
        (internal_error, s, [SendMail (email newLicense) (licenseKey newLicense)])
      else
        (case markUserIdAsUsed s (userId newLicense) written of
           (s2, Some err) \<Rightarrow>
             (internal_error, s2,
              [SendMail (email newLicense) (licenseKey newLicense), FileWrite (usedUserIds s2)])
         | (s2, None) \<Rightarrow>
             (json 200 ''SUCCESS'' ''User ID validated and license key sent to your email!'' None,
              s2,
              [SendMail (email newLicense) (licenseKey newLicense), FileWrite (usedUserIds s2)])))"

text \<open>
  What the outside world does during one request that no other request interrupts: the
  turns of the key loop, whether \<^verbatim>\<open>newLicense.save()\<close> is accepted, whether
  \<^verbatim>\<open>sendMail\<close> delivers, and what becomes of \<^verbatim>\<open>writeFileSync\<close>.
\<close>

record issue_env =
  turns :: "turn list"
  save_ok :: bool
  mail_ok :: bool
  file_write :: write_outcome

text \<open>
  The \<^verbatim>\<open>try\<close> block of the handler with its \<^verbatim>\<open>catch\<close>, run without interruption:
  the key loop, the save, the mail. Every rejection and every exception ends in the
  response 500. The response is \<open>None\<close> when the key loop has not returned, in which case
  nothing has been written.
\<close>

definition send_license_try ::
  "server \<Rightarrow> string \<Rightarrow> string \<Rightarrow> string \<Rightarrow> string \<Rightarrow> issue_env \<Rightarrow> response option \<times> server \<times> event list" where
  "send_license_try s e u n p env =
     (case generateUniqueLicenseKey (licenses s) (turns env) of
        (None, tr) \<Rightarrow> (None, s, tr)
      | (Some (Inl err), tr) \<Rightarrow> (Some internal_error, s, tr)
      | (Some (Inr newLicenseKey), tr) \<Rightarrow>
          (case issue_save s (new_License e u n p newLicenseKey) (save_ok env) (file_write env) of
             (Inl r, s1, tr1) \<Rightarrow> (Some r, s1, tr @ tr1)
           | (Inr newLicense, s1, tr1) \<Rightarrow>
               (case issue_mail s1 newLicense (mail_ok env) (file_write env) of
                  (r, s2, tr2) \<Rightarrow> (Some r, s2, tr @ tr1 @ tr2))))"

definition send_license ::
  "server \<Rightarrow> string option \<Rightarrow> string option \<Rightarrow> string option \<Rightarrow> string option \<Rightarrow> issue_env
     \<Rightarrow> response option \<times> server \<times> event list" where
  "send_license s e u n p env =
     (if falsy e \<or> falsy u \<or> falsy n \<or> falsy p then
        (Some (json 400 ''ERROR'' ''All fields are required.'' None), s, [])
      else
        (let validation = validateUserIdDirectAndUnused s (the u) in
         if \<not> valid validation then
           (Some (json 400 ''ERROR'' (the (v_message validation)) None), s, [])
         else send_license_try s (the e) (the u) (the n) (the p) env))"

subsection \<open>POST /activate-license\<close>

definition database_error :: response where
  "database_error = json 500 ''ERROR'' ''A database error occurred during activation.'' None"

text \<open>
  The handler from \<^verbatim>\<open>await License.findOne\<close> (line 258) to the next await or to the
  answer. Nothing is written here. The answer is \<open>Inl\<close>; \<open>Inr\<close> is the document that was
  read, by its place in the collection, with the three assignments of lines 283 to 285
  made to the handler's own copy, on its way to \<^verbatim>\<open>save()\<close>.
\<close>

definition act_find ::
  "server \<Rightarrow> string \<Rightarrow> string \<Rightarrow> string \<Rightarrow> bool \<Rightarrow> nat \<Rightarrow> (response + nat \<times> license) \<times> event list" where
  "act_find s e k m answered_ok clock =
     (if \<not> answered_ok then (Inl database_error, [DbFind k])
      else
        (case findOne (licenses s) k of
           None \<Rightarrow> (Inl (json 200 ''ERROR'' ''Invalid license key.'' None), [DbFind k])
         | Some storedLicense \<Rightarrow>
             if email storedLicense \<noteq> e then
               (Inl (json 200 ''ERROR'' ''This license key is not valid for this email address.''
                  None), [DbFind k])
             else if status storedLicense = ACTIVATED then
               (if machineId storedLicense = Some m then
                  (Inl (json 200 ''ALREADY_ACTIVATED''
                     ''This license is already active on this device.'' None), [DbFind k])
                else
                  (Inl (json 200 ''ERROR''
                     ''This license key is already activated on a different machine.'' None),
                   [DbFind k]))
             else
               (Inr (position k (licenses s),
                     storedLicense\<lparr>machineId := Some m, status := ACTIVATED,
                       activatedAt := Some clock\<rparr>),
                [DbFind k])))"

text \<open>
  The handler from \<^verbatim>\<open>await storedLicense.save()\<close> (line 287) to the answer. The save
  carries no condition: it sets the three fields that the handler assigned on the
  document at that place, whatever that document is by then.
\<close>

definition act_save ::
  "server \<Rightarrow> nat \<Rightarrow> license \<Rightarrow> bool \<Rightarrow> response \<times> server \<times> event list" where
  "act_save s pos storedLicense accepted =
     (if \<not> accepted then (database_error, s, [DbUpdate storedLicense])
      else
        (json 200 ''VALID'' ''License activated successfully.'' None,
         s\<lparr>licenses := (licenses s)[pos := (licenses s ! pos)
              \<lparr>machineId := machineId storedLicense, status := status storedLicense,
               activatedAt := activatedAt storedLicense\<rparr>]\<rparr>,
         [DbUpdate storedLicense]))"

text \<open>
  The outside world during one activation that no other request interrupts: whether
  \<^verbatim>\<open>findOne\<close> answers, whether \<^verbatim>\<open>storedLicense.save()\<close> is accepted, and the clock
  read by \<^verbatim>\<open>new Date()\<close>.
\<close>

record activate_env =
  find_ok :: bool
  update_ok :: bool
  now :: nat

text \<open>The handler run without interruption: the check of the fields, the read, the save.\<close>

definition activate_license ::
  "server \<Rightarrow> string option \<Rightarrow> string option \<Rightarrow> string option \<Rightarrow> activate_env
     \<Rightarrow> response \<times> server \<times> event list" where
  "activate_license s e k m env =
     (if falsy e \<or> falsy k \<or> falsy m then
        (json 400 ''ERROR'' ''Email, licenseKey, and machineId are required.'' None, s, [])
      else
        (case act_find s (the e) (the k) (the m) (find_ok env) (now env) of
           (Inl r, tr) \<Rightarrow> (r, s, tr)
         | (Inr (pos, storedLicense), tr) \<Rightarrow>
             (case act_save s pos storedLicense (update_ok env) of
                (r, s', tr') \<Rightarrow> (r, s', tr @ tr'))))"

subsection \<open>Requests in flight\<close>

text \<open>
  A request between its arrival and its answer waits at one of the awaits of its handler:
  for \<^verbatim>\<open>findOne\<close> or \<^verbatim>\<open>save()\<close> in the activation handler, for \<^verbatim>\<open>findOne\<close> in the
  key loop, for \<^verbatim>\<open>save()\<close> or for \<^verbatim>\<open>sendMail\<close> in the license handler. It holds what
  the handler's local variables hold. A request is \<open>Done\<close> with its answer, or \<open>Dropped\<close>
  when the process ended before it was answered.
\<close>

datatype task =
    ActFind string string string
  | ActSave nat license
  | IssueFind string string string string
  | IssueSave license
  | IssueMail license
  | Done response
  | Dropped

text \<open>The synchronous start of the two handlers, up to the first await.\<close>

definition arrive_send_license ::
  "server \<Rightarrow> string option \<Rightarrow> string option \<Rightarrow> string option \<Rightarrow> string option \<Rightarrow> task" where
  "arrive_send_license s e u n p =
     (if falsy e \<or> falsy u \<or> falsy n \<or> falsy p then
        Done (json 400 ''ERROR'' ''All fields are required.'' None)
      else
        (let validation = validateUserIdDirectAndUnused s (the u) in
         if \<not> valid validation then Done (json 400 ''ERROR'' (the (v_message validation)) None)
         else IssueFind (the e) (the u) (the n) (the p)))"

definition arrive_activate_license ::
  "string option \<Rightarrow> string option \<Rightarrow> string option \<Rightarrow> task" where
  "arrive_activate_license e k m =
     (if falsy e \<or> falsy k \<or> falsy m then
        Done (json 400 ''ERROR'' ''Email, licenseKey, and machineId are required.'' None)
      else ActFind (the e) (the k) (the m))"

text \<open>One turn of the key loop, on the collection as it is when \<^verbatim>\<open>findOne\<close> answers.\<close>

definition issue_find ::
  "server \<Rightarrow> string \<Rightarrow> string \<Rightarrow> string \<Rightarrow> string \<Rightarrow> turn \<Rightarrow> task \<times> event list" where
  "issue_find s e u n p t =
     (let key = candidate t in
      if \<not> answered t then (Done internal_error, [DbFind key])
      else
        (case findOne (licenses s) key of
           Some existingLicense \<Rightarrow> (IssueFind e u n p, [DbFind key])
         | None \<Rightarrow> (IssueSave (new_License e u n p key), [DbFind key])))"

text \<open>
  What the outside world delivers when an awaited operation ends: the draws and the
  answer of the next turn of the key loop, whether the operation resolves (\<^verbatim>\<open>findOne\<close>
  of an activation, a \<^verbatim>\<open>save()\<close>, \<^verbatim>\<open>sendMail\<close>), what becomes of a write of the file,
  and the clock.
\<close>

record world =
  w_turn :: turn
  w_resolves :: bool
  w_write :: write_outcome
  w_clock :: nat

text \<open>A request in flight goes on from its await to the next one or to its answer.\<close>

fun resume :: "server \<Rightarrow> task \<Rightarrow> world \<Rightarrow> task \<times> server \<times> event list" where
  "resume s (ActFind e k m) w =
     (case act_find s e k m (w_resolves w) (w_clock w) of
        (Inl r, tr) \<Rightarrow> (Done r, s, tr)
      | (Inr (pos, storedLicense), tr) \<Rightarrow> (ActSave pos storedLicense, s, tr))"
| "resume s (ActSave pos storedLicense) w =
     (case act_save s pos storedLicense (w_resolves w) of (r, s', tr) \<Rightarrow> (Done r, s', tr))"
| "resume s (IssueFind e u n p) w =
     (case issue_find s e u n p (w_turn w) of (t, tr) \<Rightarrow> (t, s, tr))"
| "resume s (IssueSave newLicense) w =
     (case issue_save s newLicense (w_resolves w) (w_write w) of
        (Inl r, s', tr) \<Rightarrow> (Done r, s', tr)
      | (Inr l, s', tr) \<Rightarrow> (IssueMail l, s', tr))"
| "resume s (IssueMail newLicense) w =
     (case issue_mail s newLicense (w_resolves w) (w_write w) of (r, s', tr) \<Rightarrow> (Done r, s', tr))"
| "resume s (Done r) w = (Done r, s, [])"
| "resume s Dropped w = (Dropped, s, [])"

subsection \<open>Process start and runs of the server\<close>

text \<open>
  \<^verbatim>\<open>loadValidUserIds\<close> replaces the set when \<^verbatim>\<open>user_ids.json\<close> exists and parses
  (\<open>Some idsArray\<close>) and leaves it as it is otherwise.
\<close>

definition loadValidUserIds :: "server \<Rightarrow> string list option \<Rightarrow> server" where
  "loadValidUserIds s file =
     (case file of Some idsArray \<Rightarrow> s\<lparr>validUserIds := new_Set idsArray\<rparr> | None \<Rightarrow> s)"

text \<open>
  A start of the process: both sets are created empty; the \<^verbatim>\<open>listen\<close> callback loads
  \<^verbatim>\<open>usedUserIds\<close> from its file when the file exists, is not empty and parses, and
  leaves or makes the set empty otherwise (lines 376 to 387); then it calls
  \<^verbatim>\<open>loadValidUserIds\<close>. The file and the license collection outlive the process.
\<close>

definition restart :: "server \<Rightarrow> string list option \<Rightarrow> bool \<Rightarrow> server" where
  "restart s valid_file configured =
     loadValidUserIds
       \<lparr>validUserIds = [],
        usedUserIds =
          (case used_ids_file s of Ids ids \<Rightarrow> new_Set ids | Unreadable \<Rightarrow> [] | NoFile \<Rightarrow> []),
        used_ids_file = used_ids_file s,
        licenses = licenses s,
        email_configured = configured\<rparr>
       valid_file"

text \<open>
  The server with its requests, each at its place in the order of arrival. A move is the
  arrival of a request, the end of the operation that the request at some place awaits,
  or the end of the process and its start anew, which drops the requests in flight.
\<close>

record system =
  server_of :: server
  requests :: "task list"

datatype move =
    SendLicense "string option" "string option" "string option" "string option"
  | ActivateLicense "string option" "string option" "string option"
  | Resume nat world
  | Restart "string list option" bool

fun step :: "system \<Rightarrow> move \<Rightarrow> system" where
  "step sys (SendLicense e u n p) =
     sys\<lparr>requests := requests sys @ [arrive_send_license (server_of sys) e u n p]\<rparr>"
| "step sys (ActivateLicense e k m) =
     sys\<lparr>requests := requests sys @ [arrive_activate_license e k m]\<rparr>"
| "step sys (Resume i w) =
     (if i < length (requests sys) then
        (case resume (server_of sys) (requests sys ! i) w of
           (t, s', tr) \<Rightarrow> \<lparr>server_of = s', requests = (requests sys)[i := t]\<rparr>)
      else sys)"
| "step sys (Restart valid_file configured) =
     \<lparr>server_of = restart (server_of sys) valid_file configured,
      requests = map (\<lambda>t. case t of Done r \<Rightarrow> Done r | _ \<Rightarrow> Dropped) (requests sys)\<rparr>"

definition run :: "system \<Rightarrow> move list \<Rightarrow> system" where
  "run sys ms = foldl step sys ms"


text \<open>
  What a request in flight holds fits the collection: a document on its way to
  \<^verbatim>\<open>save()\<close> was read at its place under its key, has the email found there and
  has been given the status ACTIVATED; a license whose mail is awaited has been inserted.
\<close>

definition fits :: "license list \<Rightarrow> task \<Rightarrow> bool" where
  "fits db t =
     (case t of
        ActSave pos storedLicense \<Rightarrow>
          pos < length db \<and> position (licenseKey storedLicense) db = pos \<and>
          email (db ! pos) = email storedLicense \<and> status storedLicense = ACTIVATED
      | IssueMail newLicense \<Rightarrow> userId newLicense \<in> userId ` set db
      | _ \<Rightarrow> True)"

definition coherent :: "system \<Rightarrow> bool" where
  "coherent sys = (\<forall>t \<in> set (requests sys). fits (licenses (server_of sys)) t)"





text \<open>
  The fields of a document that no handler assigns after the insert, and a document that
  is settled at its place: it is the first under its key, and no request in flight awaits
  a save on it.
\<close>

definition fixed_fields :: "license \<Rightarrow> string \<times> string \<times> string" where
  "fixed_fields l = (licenseKey l, email l, userId l)"


subsection \<open>Example states\<close>

definition bob_license :: license where
  "bob_license =
     \<lparr>email = ''bob@example.org'', userId = ''U124'', name = ''Bob'', phoneNumber = ''5550124'',
      licenseKey = ''ABCD-EFGH-IJKL'', status = ASSIGNED, machineId = None, activatedAt = None\<rparr>"

definition bob_activated :: license where
  "bob_activated =
     bob_license\<lparr>machineId := Some ''mach-1'', status := ACTIVATED, activatedAt := Some 1700\<rparr>"

text \<open>A server where U123 may still ask for a license and U124 has got one.\<close>

definition srv_assigned :: server where
  "srv_assigned =
     \<lparr>validUserIds = [''U123'', ''U124''], usedUserIds = [''U124''],
      used_ids_file = Ids [''U124''], licenses = [bob_license], email_configured = True\<rparr>"

definition srv_activated :: server where
  "srv_activated = srv_assigned\<lparr>licenses := [bob_activated]\<rparr>"

definition calm :: issue_env where
  "calm =
     \<lparr>turns =
        [\<lparr>draw1 = ''0.abcd1x'', draw2 = ''0.efgh2y'', draw3 = ''0.ijkl3z'', answered = True\<rparr>,
         \<lparr>draw1 = ''0.4fzyo82mvyr'', draw2 = ''0.k9x2b7'', draw3 = ''0.zzz9z'', answered = True\<rparr>,
         \<lparr>draw1 = ''0.q1w2e3'', draw2 = ''0.r4t5y6'', draw3 = ''0.u7i8o9'', answered = True\<rparr>],
      save_ok = True, mail_ok = True, file_write = Written\<rparr>"

definition noon :: activate_env where
  "noon = \<lparr>find_ok = True, update_ok = True, now = 1700\<rparr>"

text \<open>
  The license that the second turn of \<open>calm\<close> gives to Ann, the server after she has
  got it, and the operations attempted up to the insert.
\<close>

definition ann_license :: license where
  "ann_license = new_License ''ann@example.org'' ''U123'' ''Ann'' ''5550123'' ''4FZY-K9X2-ZZZ9''"

definition srv_issued :: server where
  "srv_issued =
     srv_assigned\<lparr>licenses := [bob_license, ann_license], usedUserIds := [''U124'', ''U123''],
       used_ids_file := Ids [''U124'', ''U123'']\<rparr>"











section \<open>Facts about the license collection\<close>

lemma findOne_Some: "findOne db k = Some l \<Longrightarrow> licenseKey l = k \<and> l \<in> set db"
  unfolding findOne_def by (induction db) (auto split: if_splits)

lemma findOne_position:
  "findOne db k = (if position k db < length db then Some (db ! position k db) else None)"
  unfolding findOne_def position_def by (induction db) auto

lemma position_keys:
  assumes "map licenseKey db = map licenseKey db'"
  shows "position k db = position k db'"
proof -
  have "position k xs = length (takeWhile (\<lambda>x. x \<noteq> k) (map licenseKey xs))" for xs
    by (simp add: position_def takeWhile_map comp_def)
  with assms show ?thesis by simp
qed

lemma position_append: "position k db < length db \<Longrightarrow> position k (db @ xs) = position k db"
  unfolding position_def by (induction db) auto

lemma findOne_append_keeps: "findOne db k = Some l \<Longrightarrow> findOne (db @ ls) k = Some l"
  unfolding findOne_def by (induction db) (auto split: if_splits)

section \<open>Eligibility of a user ID\<close>

text \<open>
  Claim C8. \<^verbatim>\<open>validateUserIdDirectAndUnused\<close> answers \<^verbatim>\<open>valid: true\<close> exactly for
  an ID that is in \<^verbatim>\<open>validUserIds\<close> and not in \<^verbatim>\<open>usedUserIds\<close>. An ID that is not
  on the list and an ID that is already used both get \<^verbatim>\<open>valid: false\<close> and differ in
  the message only, and \<^verbatim>\<open>/send-license\<close> answers either of them with status 400 and
  that message, without changing the state or touching a store.
\<close>

theorem validateUserIdDirectAndUnused_eligible:
  "(valid (validateUserIdDirectAndUnused s u) \<longleftrightarrow>
      u \<in> set (validUserIds s) \<and> u \<notin> set (usedUserIds s)) \<and>
   (u \<notin> set (validUserIds s) \<longrightarrow>
      validateUserIdDirectAndUnused s u =
        \<lparr>valid = False,
         v_message = Some (''User ID '' @ [CHR 0x27] @ u @ [CHR 0x27] @ '' is not a valid ID.'')\<rparr>) \<and>
   (u \<in> set (validUserIds s) \<and> u \<in> set (usedUserIds s) \<longrightarrow>
      validateUserIdDirectAndUnused s u =
        \<lparr>valid = False,
         v_message = Some (''User ID '' @ [CHR 0x27] @ u @ [CHR 0x27] @ '' has already been used.'')\<rparr>) \<and>
   (\<not> falsy e \<and> u \<noteq> [] \<and> \<not> falsy n \<and> \<not> falsy p \<and>
    \<not> (u \<in> set (validUserIds s) \<and> u \<notin> set (usedUserIds s)) \<longrightarrow>
      send_license s e (Some u) n p env =
        (Some (json 400 ''ERROR'' (the (v_message (validateUserIdDirectAndUnused s u))) None), s, []))"
  by (simp add: validateUserIdDirectAndUnused_def isUserIdValid_def isUserIdAlreadyUsed_def
      has_def send_license_def falsy_def)

theorem validateUserIdDirectAndUnused_eligible_witness:
  "valid (validateUserIdDirectAndUnused srv_assigned ''U123'') \<and>
   validateUserIdDirectAndUnused srv_assigned ''U999'' =
     \<lparr>valid = False, v_message = Some (''User ID '' @ [CHR 0x27] @ ''U999'' @ [CHR 0x27] @ '' is not a valid ID.'')\<rparr> \<and>
   validateUserIdDirectAndUnused srv_assigned ''U124'' =
     \<lparr>valid = False, v_message = Some (''User ID '' @ [CHR 0x27] @ ''U124'' @ [CHR 0x27] @ '' has already been used.'')\<rparr> \<and>
   send_license srv_assigned (Some ''bob@example.org'') (Some ''U124'') (Some ''Bob'')
       (Some ''5550124'') calm =
     (Some (json 400 ''ERROR'' (''User ID '' @ [CHR 0x27] @ ''U124'' @ [CHR 0x27] @ '' has already been used.'') None),
      srv_assigned, [])"
proof -
  have ids: "validUserIds srv_assigned = [''U123'', ''U124'']" "usedUserIds srv_assigned = [''U124'']"
    by (simp_all add: srv_assigned_def)
  have present: "\<not> falsy (Some ''bob@example.org'')" "\<not> falsy (Some ''Bob'')"
    "\<not> falsy (Some ''5550124'')"
    by (simp_all add: falsy_def)
  note a = validateUserIdDirectAndUnused_eligible
    [of srv_assigned "''U123''" None None None calm]
  note b = validateUserIdDirectAndUnused_eligible
    [of srv_assigned "''U999''" None None None calm]
  note c = validateUserIdDirectAndUnused_eligible
    [of srv_assigned "''U124''" "Some ''bob@example.org''" "Some ''Bob''" "Some ''5550124''" calm]
  from a have "valid (validateUserIdDirectAndUnused srv_assigned ''U123'')"
    by (simp add: ids)
  moreover from b have "validateUserIdDirectAndUnused srv_assigned ''U999'' =
     \<lparr>valid = False, v_message = Some (''User ID '' @ [CHR 0x27] @ ''U999'' @ [CHR 0x27] @ '' is not a valid ID.'')\<rparr>"
    by (simp add: ids)
  moreover from c have used: "validateUserIdDirectAndUnused srv_assigned ''U124'' =
     \<lparr>valid = False, v_message = Some (''User ID '' @ [CHR 0x27] @ ''U124'' @ [CHR 0x27] @ '' has already been used.'')\<rparr>"
    by (simp add: ids)
  moreover from c present have "send_license srv_assigned (Some ''bob@example.org'') (Some ''U124'') (Some ''Bob'')
       (Some ''5550124'') calm =
     (Some (json 400 ''ERROR'' (the (v_message (validateUserIdDirectAndUnused srv_assigned ''U124''))) None),
      srv_assigned, [])"
    by (simp add: ids)
  ultimately show ?thesis by (simp add: used)
qed

section \<open>Requests with a missing field\<close>

text \<open>
  Claim C9. A \<^verbatim>\<open>/send-license\<close> request in which email, userId, name or phoneNumber is
  missing, and an \<^verbatim>\<open>/activate-license\<close> request in which email, licenseKey or
  machineId is missing, is answered with status 400 before any store is touched: the
  state is the one before the request and the handler has attempted no operation on the
  license collection, the ID file or the mail transport.
\<close>

theorem missing_field_rejected:
  "(falsy e \<or> falsy u \<or> falsy n \<or> falsy p \<longrightarrow>
      send_license s e u n p env =
        (Some (json 400 ''ERROR'' ''All fields are required.'' None), s, [])) \<and>
   (falsy e \<or> falsy k \<or> falsy m \<longrightarrow>
      activate_license s e k m aenv =
        (json 400 ''ERROR'' ''Email, licenseKey, and machineId are required.'' None, s, []))"
  by (simp add: send_license_def activate_license_def)

theorem missing_field_rejected_witness:
  "send_license srv_assigned None (Some ''U123'') (Some ''Ann'') (Some ''5550123'') calm =
     (Some (json 400 ''ERROR'' ''All fields are required.'' None), srv_assigned, []) \<and>
   activate_license srv_assigned None (Some ''ABCD-EFGH-IJKL'') (Some []) noon =
     (json 400 ''ERROR'' ''Email, licenseKey, and machineId are required.'' None, srv_assigned, [])"
proof -
  have absent: "falsy None" "falsy (Some [])"
    by (simp_all add: falsy_def)
  from absent
    missing_field_rejected
      [of None "Some ''U123''" "Some ''Ann''" "Some ''5550123''" srv_assigned calm
          "Some ''ABCD-EFGH-IJKL''" "Some []" noon]
  show ?thesis by simp
qed

section \<open>Activation\<close>

text \<open>The handler has written only when it answers VALID.\<close>

lemma act_save_unchanged_or_valid:
  "fst (snd (act_save s pos d ok)) = s \<or> res_status (fst (act_save s pos d ok)) = ''VALID''"
  by (simp add: act_save_def json_def)

lemma activate_license_unchanged_or_valid:
  "fst (snd (activate_license s e k m env)) = s \<or>
   res_status (fst (activate_license s e k m env)) = ''VALID''"
proof (cases "falsy e \<or> falsy k \<or> falsy m")
  case True
  then show ?thesis by (auto simp add: activate_license_def)
next
  case False
  obtain a tr where read: "act_find s (the e) (the k) (the m) (find_ok env) (now env) = (a, tr)"
    by (cases "act_find s (the e) (the k) (the m) (find_ok env) (now env)")
  show ?thesis
  proof (cases a)
    case (Inl r)
    with False read show ?thesis by (simp add: activate_license_def)
  next
    case (Inr pd)
    obtain pos d where pd: "pd = (pos, d)" by (cases pd)
    obtain r s' tr' where save: "act_save s pos d (update_ok env) = (r, s', tr')"
      by (cases "act_save s pos d (update_ok env)")
    from act_save_unchanged_or_valid [of s pos d "update_ok env"] save
    have "s' = s \<or> res_status r = ''VALID''" by simp
    with False read Inr pd save show ?thesis by (simp add: activate_license_def)
  qed
qed

text \<open>
  Claim C10. Each rejecting path of \<^verbatim>\<open>/activate-license\<close> (no document for the key,
  another email than the document's, another machine than the one an activated document
  is bound to) answers after the one read of the collection and before any write: the
  state is unchanged and the read is the only operation attempted. More generally every
  answer with status ERROR leaves the state as it was.
\<close>

theorem activate_rejections_write_nothing:
  "(e \<noteq> [] \<and> k \<noteq> [] \<and> m \<noteq> [] \<and> find_ok env \<longrightarrow>
      (findOne (licenses s) k = None \<longrightarrow>
         activate_license s (Some e) (Some k) (Some m) env =
           (json 200 ''ERROR'' ''Invalid license key.'' None, s, [DbFind k])) \<and>
      (\<forall>l. findOne (licenses s) k = Some l \<and> email l \<noteq> e \<longrightarrow>
         activate_license s (Some e) (Some k) (Some m) env =
           (json 200 ''ERROR'' ''This license key is not valid for this email address.'' None,
            s, [DbFind k])) \<and>
      (\<forall>l. findOne (licenses s) k = Some l \<and> email l = e \<and> status l = ACTIVATED \<and>
           machineId l \<noteq> Some m \<longrightarrow>
         activate_license s (Some e) (Some k) (Some m) env =
           (json 200 ''ERROR'' ''This license key is already activated on a different machine.''
              None, s, [DbFind k]))) \<and>
   (res_status (fst (activate_license s e' k' m' env)) = ''ERROR'' \<longrightarrow>
      fst (snd (activate_license s e' k' m' env)) = s)"
proof -
  have paths: "e \<noteq> [] \<and> k \<noteq> [] \<and> m \<noteq> [] \<and> find_ok env \<longrightarrow>
      (findOne (licenses s) k = None \<longrightarrow>
         activate_license s (Some e) (Some k) (Some m) env =
           (json 200 ''ERROR'' ''Invalid license key.'' None, s, [DbFind k])) \<and>
      (\<forall>l. findOne (licenses s) k = Some l \<and> email l \<noteq> e \<longrightarrow>
         activate_license s (Some e) (Some k) (Some m) env =
           (json 200 ''ERROR'' ''This license key is not valid for this email address.'' None,
            s, [DbFind k])) \<and>
      (\<forall>l. findOne (licenses s) k = Some l \<and> email l = e \<and> status l = ACTIVATED \<and>
           machineId l \<noteq> Some m \<longrightarrow>
         activate_license s (Some e) (Some k) (Some m) env =
           (json 200 ''ERROR'' ''This license key is already activated on a different machine.''
              None, s, [DbFind k]))"
    by (simp add: activate_license_def act_find_def falsy_def)
  from activate_license_unchanged_or_valid [of s e' k' m' env]
  have "res_status (fst (activate_license s e' k' m' env)) = ''ERROR'' \<longrightarrow>
      fst (snd (activate_license s e' k' m' env)) = s"
    by auto
  with paths show ?thesis by blast
qed

theorem activate_rejections_write_nothing_witness:
  "activate_license srv_activated (Some ''bob@example.org'') (Some ''NOTREAL-KEY'')
       (Some ''mach-1'') noon =
     (json 200 ''ERROR'' ''Invalid license key.'' None, srv_activated, [DbFind ''NOTREAL-KEY'']) \<and>
   activate_license srv_activated (Some ''eve@example.org'') (Some ''ABCD-EFGH-IJKL'')
       (Some ''mach-1'') noon =
     (json 200 ''ERROR'' ''This license key is not valid for this email address.'' None,
      srv_activated, [DbFind ''ABCD-EFGH-IJKL'']) \<and>
   activate_license srv_activated (Some ''bob@example.org'') (Some ''ABCD-EFGH-IJKL'')
       (Some ''mach-2'') noon =
     (json 200 ''ERROR'' ''This license key is already activated on a different machine.'' None,
      srv_activated, [DbFind ''ABCD-EFGH-IJKL'']) \<and>
   res_status (fst (activate_license srv_assigned (Some ''bob@example.org'')
       (Some ''ABCD-EFGH-IJKL'') (Some ''mach-1'') (noon\<lparr>update_ok := False\<rparr>))) = ''ERROR'' \<and>
   fst (snd (activate_license srv_assigned (Some ''bob@example.org'')
       (Some ''ABCD-EFGH-IJKL'') (Some ''mach-1'') (noon\<lparr>update_ok := False\<rparr>))) = srv_assigned"
proof -
  have db: "findOne (licenses srv_activated) ''NOTREAL-KEY'' = None"
    "findOne (licenses srv_activated) ''ABCD-EFGH-IJKL'' = Some bob_activated"
    by (simp_all add: srv_activated_def srv_assigned_def findOne_def bob_activated_def
        bob_license_def)
  have doc: "email bob_activated = ''bob@example.org''" "status bob_activated = ACTIVATED"
    "machineId bob_activated = Some ''mach-1''"
    by (simp_all add: bob_activated_def bob_license_def)
  have up: "find_ok noon"
    by (simp add: noon_def)
  note missing = activate_rejections_write_nothing
    [of "''bob@example.org''" "''NOTREAL-KEY''" "''mach-1''" noon srv_activated None None None]
  note stranger = activate_rejections_write_nothing
    [of "''eve@example.org''" "''ABCD-EFGH-IJKL''" "''mach-1''" noon srv_activated None None None]
  note moved = activate_rejections_write_nothing
    [of "''bob@example.org''" "''ABCD-EFGH-IJKL''" "''mach-2''" noon srv_activated None None None]
  from missing db up have "activate_license srv_activated (Some ''bob@example.org'')
      (Some ''NOTREAL-KEY'') (Some ''mach-1'') noon =
     (json 200 ''ERROR'' ''Invalid license key.'' None, srv_activated, [DbFind ''NOTREAL-KEY''])"
    by simp
  moreover from stranger db doc up have "activate_license srv_activated (Some ''eve@example.org'')
      (Some ''ABCD-EFGH-IJKL'') (Some ''mach-1'') noon =
     (json 200 ''ERROR'' ''This license key is not valid for this email address.'' None,
      srv_activated, [DbFind ''ABCD-EFGH-IJKL''])"
    by simp
  moreover from moved db doc up have "activate_license srv_activated (Some ''bob@example.org'')
      (Some ''ABCD-EFGH-IJKL'') (Some ''mach-2'') noon =
     (json 200 ''ERROR'' ''This license key is already activated on a different machine.'' None,
      srv_activated, [DbFind ''ABCD-EFGH-IJKL''])"
    by simp
  moreover have refused: "res_status (fst (activate_license srv_assigned (Some ''bob@example.org'')
       (Some ''ABCD-EFGH-IJKL'') (Some ''mach-1'') (noon\<lparr>update_ok := False\<rparr>))) = ''ERROR''"
    by code_simp
  moreover from refused activate_rejections_write_nothing
    [of "[]" "[]" "[]" "noon\<lparr>update_ok := False\<rparr>" srv_assigned "Some ''bob@example.org''"
        "Some ''ABCD-EFGH-IJKL''" "Some ''mach-1''"]
  have "fst (snd (activate_license srv_assigned (Some ''bob@example.org'')
       (Some ''ABCD-EFGH-IJKL'') (Some ''mach-1'') (noon\<lparr>update_ok := False\<rparr>))) = srv_assigned"
    by simp
  ultimately show ?thesis by simp
qed

section \<open>What one piece of a handler does to the state\<close>

lemma markUserIdAsUsed_fields:
  "licenses (fst (markUserIdAsUsed s u w)) = licenses s"
  "validUserIds (fst (markUserIdAsUsed s u w)) = validUserIds s"
  "email_configured (fst (markUserIdAsUsed s u w)) = email_configured s"
  "usedUserIds (fst (markUserIdAsUsed s u w)) = add (usedUserIds s) u"
  by (cases w; simp add: markUserIdAsUsed_def Let_def)+


text \<open>
  The collection after a piece: as it was, or with the new license at its end, or with the
  three fields of an activation set at one place.
\<close>

lemma resume_licenses:
  assumes "resume s t w = (t', s', tr)"
  shows "licenses s' = licenses s \<or>
         (\<exists>nl. t = IssueSave nl \<and> w_resolves w \<and> licenses s' = licenses s @ [nl]) \<or>
         (\<exists>pos d. t = ActSave pos d \<and> w_resolves w \<and>
            licenses s' = (licenses s)[pos := (licenses s ! pos)
              \<lparr>machineId := machineId d, status := status d, activatedAt := activatedAt d\<rparr>])"
proof (cases t)
  case (ActFind e k m)
  with assms show ?thesis
    by (cases "act_find s e k m (w_resolves w) (w_clock w)") (auto split: sum.splits)
next
  case (ActSave pos d)
  with assms show ?thesis
    by (cases "w_resolves w") (auto simp add: act_save_def)
next
  case (IssueFind e u n p)
  with assms show ?thesis
    by (cases "issue_find s e u n p (w_turn w)") auto
next
  case (IssueSave nl)
  obtain s2 err where mark:
    "markUserIdAsUsed (s\<lparr>licenses := licenses s @ [nl]\<rparr>) (userId nl) (w_write w) = (s2, err)"
    by (cases "markUserIdAsUsed (s\<lparr>licenses := licenses s @ [nl]\<rparr>) (userId nl) (w_write w)")
  with markUserIdAsUsed_fields(1) [of "s\<lparr>licenses := licenses s @ [nl]\<rparr>" "userId nl" "w_write w"]
  have "licenses s2 = licenses s @ [nl]" by simp
  with assms IssueSave mark show ?thesis
    by (cases "w_resolves w"; cases "email_configured s"; cases err)
      (auto simp add: issue_save_def Let_def)
next
  case (IssueMail nl)
  obtain s2 err where mark: "markUserIdAsUsed s (userId nl) (w_write w) = (s2, err)"
    by (cases "markUserIdAsUsed s (userId nl) (w_write w)")
  with markUserIdAsUsed_fields(1) [of s "userId nl" "w_write w"]
  have "licenses s2 = licenses s" by simp
  with assms IssueMail mark show ?thesis
    by (cases "w_resolves w"; cases err) (auto simp add: issue_mail_def)
next
  case (Done r)
  with assms show ?thesis by auto
next
  case Dropped
  with assms show ?thesis by auto
qed

lemma fixed_fields_update:
  "map fixed_fields (db[pos := (db ! pos)\<lparr>machineId := a, status := b, activatedAt := c\<rparr>]) =
   map fixed_fields db"
proof (cases "pos < length db")
  case True
  have "fixed_fields ((db ! pos)\<lparr>machineId := a, status := b, activatedAt := c\<rparr>) =
      fixed_fields (db ! pos)"
    by (simp add: fixed_fields_def)
  with True show ?thesis
    by (simp add: map_update list_update_same_conv)
next
  case False
  then show ?thesis by (simp add: list_update_beyond)
qed

lemma resume_extends:
  assumes "resume s t w = (t', s', tr)"
  shows "\<exists>xs. map fixed_fields (licenses s') = map fixed_fields (licenses s) @ xs"
  using resume_licenses [OF assms] by (auto simp add: fixed_fields_update)

lemma position_extends:
  assumes "map fixed_fields db' = map fixed_fields db @ xs" and "position k db < length db"
  shows "position k db' = position k db"
proof -
  have keys: "map licenseKey ys = map fst (map fixed_fields ys)" for ys
    by (simp add: fixed_fields_def comp_def)
  obtain rest where rest: "db' = take (length db) db' @ rest"
    by (metis append_take_drop_id)
  from assms(1) have len: "length db \<le> length db'"
    by (metis length_append length_map le_add1)
  have "map fixed_fields (take (length db) db') = map fixed_fields db"
    using assms(1) len by (simp add: take_map [symmetric])
  then have "map licenseKey (take (length db) db') = map licenseKey db"
    by (simp add: keys)
  then have same: "position k (take (length db) db') = position k db"
    by (rule position_keys)
  with assms(2) len have "position k (take (length db) db') < length (take (length db) db')"
    by simp
  then have "position k (take (length db) db' @ rest) = position k (take (length db) db')"
    by (rule position_append)
  with rest same show ?thesis by simp
qed

lemma nth_extends:
  assumes "map fixed_fields db' = map fixed_fields db @ xs" and "pos < length db"
  shows "pos < length db'" and "fixed_fields (db' ! pos) = fixed_fields (db ! pos)"
proof -
  from assms(1) have len: "length db \<le> length db'"
    by (metis length_append length_map le_add1)
  with assms(2) show "pos < length db'" by simp
  then have "fixed_fields (db' ! pos) = map fixed_fields db' ! pos" by simp
  also have "\<dots> = map fixed_fields db ! pos"
    using assms by (simp add: nth_append)
  finally show "fixed_fields (db' ! pos) = fixed_fields (db ! pos)"
    using assms(2) by simp
qed


text \<open>
  A request comes to await a save only by reading, under its key and with its email, a
  document that is not ACTIVATED.
\<close>

lemma resume_to_save:
  assumes "resume s t w = (t', s', tr)" and "t' = ActSave pos d" and "t \<noteq> t'"
  shows "\<exists>e k m l. t = ActFind e k m \<and> findOne (licenses s) k = Some l \<and>
           status l \<noteq> ACTIVATED \<and> email l = e \<and> pos = position k (licenses s) \<and>
           d = l\<lparr>machineId := Some m, status := ACTIVATED, activatedAt := Some (w_clock w)\<rparr> \<and>
           s' = s"
proof (cases t)
  case (ActFind e k m)
  with assms show ?thesis
    by (auto simp add: act_find_def split: if_splits option.splits)
next
  case (ActSave q d')
  with assms show ?thesis
    by (cases "act_save s q d' (w_resolves w)") auto
next
  case (IssueFind e u n p)
  with assms show ?thesis
    by (auto simp add: issue_find_def Let_def split: if_splits option.splits)
next
  case (IssueSave nl)
  with assms show ?thesis
    by (cases "issue_save s nl (w_resolves w) (w_write w)") (auto split: sum.splits)
next
  case (IssueMail nl)
  with assms show ?thesis
    by (cases "issue_mail s nl (w_resolves w) (w_write w)") auto
next
  case (Done r)
  with assms show ?thesis by auto
next
  case Dropped
  with assms show ?thesis by auto
qed


section \<open>Runs of the server and activated documents\<close>



lemma findOne_settled:
  "findOne db k = Some l \<longleftrightarrow> position k db < length db \<and> db ! position k db = l"
  by (auto simp add: findOne_position)










section \<open>Requests in flight fit the collection\<close>

lemma userIds_append:
  assumes "map fixed_fields db' = map fixed_fields db @ xs"
  shows "map userId db' = map userId db @ map (\<lambda>x. snd (snd x)) xs"
proof -
  have ids: "map userId ys = map (\<lambda>x. snd (snd x)) (map fixed_fields ys)" for ys
    by (simp add: fixed_fields_def)
  have "map userId db' = map (\<lambda>x. snd (snd x)) (map fixed_fields db @ xs)"
    by (simp only: ids [of db'] assms)
  also have "\<dots> = map userId db @ map (\<lambda>x. snd (snd x)) xs"
    by (simp only: ids [of db] map_append)
  finally show ?thesis .
qed

lemma userIds_extend:
  assumes "map fixed_fields db' = map fixed_fields db @ xs"
  shows "userId ` set db \<subseteq> userId ` set db'"
proof -
  from userIds_append [OF assms] have "set (map userId db) \<subseteq> set (map userId db')"
    by simp
  then show ?thesis by simp
qed

lemma fits_extends:
  assumes ext: "map fixed_fields db' = map fixed_fields db @ xs" and fit: "fits db t"
  shows "fits db' t"
proof (cases t)
  case (ActSave pos d)
  with fit have here: "pos < length db" "position (licenseKey d) db = pos"
    "email (db ! pos) = email d" "status d = ACTIVATED"
    by (simp_all add: fits_def)
  have "pos < length db'"
    using ext here(1) by (rule nth_extends(1))
  moreover have "position (licenseKey d) db' = pos"
    using position_extends [OF ext, of "licenseKey d"] here by simp
  moreover have "email (db' ! pos) = email d"
    using nth_extends(2) [OF ext here(1)] here(3) by (simp add: fixed_fields_def)
  ultimately show ?thesis
    using ActSave here(4) by (simp add: fits_def)
next
  case (IssueMail nl)
  with fit userIds_extend [OF ext] show ?thesis
    by (auto simp add: fits_def)
qed (simp_all add: fits_def)

lemma resume_fits:
  assumes piece: "resume s t w = (t', s', tr)"
  shows "fits (licenses s') t'"
proof (cases t')
  case (ActSave pos d)
  show ?thesis
  proof (cases "t = t'")
    case True
    with piece ActSave show ?thesis
      by (cases "act_save s pos d (w_resolves w)") auto
  next
    case False
    from resume_to_save [OF piece ActSave False] obtain e k m l where
      read: "findOne (licenses s) k = Some l" "email l = e" "pos = position k (licenses s)"
        "d = l\<lparr>machineId := Some m, status := ACTIVATED, activatedAt := Some (w_clock w)\<rparr>"
        "s' = s"
      by blast
    from read(1) have "licenseKey l = k" by (simp add: findOne_Some)
    with read ActSave show ?thesis
      by (simp add: fits_def findOne_settled)
  qed
next
  case (IssueMail nl)
  show ?thesis
  proof (cases t)
    case (ActFind e k m)
    with piece IssueMail show ?thesis
      by (cases "act_find s e k m (w_resolves w) (w_clock w)") (auto split: sum.splits)
  next
    case (ActSave q d')
    with piece IssueMail show ?thesis
      by (cases "act_save s q d' (w_resolves w)") auto
  next
    case (IssueFind e u n p)
    with piece IssueMail show ?thesis
      by (auto simp add: issue_find_def Let_def split: if_splits option.splits)
  next
    case (IssueSave nl')
    with piece IssueMail show ?thesis
      by (auto simp add: issue_save_def Let_def fits_def
          split: if_splits prod.splits option.splits)
  next
    case (IssueMail nl')
    with piece \<open>t' = IssueMail nl\<close> show ?thesis
      by (cases "issue_mail s nl' (w_resolves w) (w_write w)") auto
  next
    case (Done r)
    with piece IssueMail show ?thesis by auto
  next
    case Dropped
    with piece IssueMail show ?thesis by auto
  qed
qed (simp_all add: fits_def)

lemma step_coherent:
  assumes inv: "coherent sys"
  shows "coherent (step sys mv)"
proof (cases mv)
  case (SendLicense e u n p)
  have "fits db (arrive_send_license s e u n p)" for db s
    by (simp add: arrive_send_license_def Let_def fits_def)
  with inv SendLicense show ?thesis
    by (simp add: coherent_def)
next
  case (ActivateLicense e k m)
  have "fits db (arrive_activate_license e k m)" for db
    by (simp add: arrive_activate_license_def fits_def)
  with inv ActivateLicense show ?thesis
    by (simp add: coherent_def)
next
  case (Resume i w)
  show ?thesis
  proof (cases "i < length (requests sys)")
    case False
    with Resume inv show ?thesis by simp
  next
    case True
    obtain t' s' tr where piece: "resume (server_of sys) (requests sys ! i) w = (t', s', tr)"
      by (cases "resume (server_of sys) (requests sys ! i) w")
    obtain xs where ext:
      "map fixed_fields (licenses s') = map fixed_fields (licenses (server_of sys)) @ xs"
      using resume_extends [OF piece] ..
    have "fits (licenses s') x" if "x \<in> set ((requests sys)[i := t'])" for x
    proof -
      from that set_update_subset_insert [of "requests sys" i t']
      have "x = t' \<or> x \<in> set (requests sys)" by auto
      then show ?thesis
      proof
        assume "x = t'"
        with resume_fits [OF piece] show ?thesis by simp
      next
        assume "x \<in> set (requests sys)"
        with inv have "fits (licenses (server_of sys)) x"
          by (simp add: coherent_def)
        with ext show ?thesis by (rule fits_extends)
      qed
    qed
    with Resume True piece show ?thesis
      by (simp add: coherent_def)
  qed
next
  case (Restart f c)
  have "fits db (case t of Done r \<Rightarrow> Done r | _ \<Rightarrow> Dropped)" for db t
    by (cases t) (simp_all add: fits_def)
  with Restart show ?thesis
    by (simp add: coherent_def)
qed

lemma run_coherent: "coherent sys \<Longrightarrow> coherent (run sys ms)"
  unfolding run_def by (induction ms arbitrary: sys) (simp_all add: step_coherent)

lemma coherent_start: "coherent \<lparr>server_of = s, requests = []\<rparr>"
  by (simp add: coherent_def)

lemma reached_coherent: "coherent (run \<lparr>server_of = s, requests = []\<rparr> ms)"
  using coherent_start by (rule run_coherent)



section \<open>The activation of a fresh license\<close>






section \<open>The same activation again\<close>






section \<open>Key generation\<close>

text \<open>One turn of the loop, by the answer of the database.\<close>

lemma generate_Cons:
  "generateUniqueLicenseKey db (t # ts) =
     (if \<not> answered t then (Some (Inl DatabaseError), [DbFind (candidate t)])
      else if findOne db (candidate t) = None then (Some (Inr (candidate t)), [DbFind (candidate t)])
      else (fst (generateUniqueLicenseKey db ts), DbFind (candidate t) # snd (generateUniqueLicenseKey db ts)))"
  by (auto simp add: Let_def split: option.splits prod.splits)

declare generateUniqueLicenseKey.simps(2) [simp del]

text \<open>
  Claim C7. \<^verbatim>\<open>generateUniqueLicenseKey\<close> returns a key exactly when some turn of the
  loop is reached whose candidate \<^verbatim>\<open>findOne\<close> reports absent: every turn before it was
  answered and reported its candidate present (so the loop went on), the returned key is
  the candidate of that turn, and it was absent from the collection when it was checked.
  The reads attempted are the candidates of those turns, in order. In particular the loop
  does return as soon as the supplied turns contain such a candidate.
\<close>

theorem generateUniqueLicenseKey_returns:
  "generateUniqueLicenseKey db ts = (Some (Inr key), tr) \<longleftrightarrow>
     (\<exists>pre t post. ts = pre @ t # post \<and>
        (\<forall>x \<in> set pre. answered x \<and> findOne db (candidate x) \<noteq> None) \<and>
        answered t \<and> candidate t = key \<and> findOne db key = None \<and>
        tr = map (DbFind \<circ> candidate) (pre @ [t]))"
proof (induction ts arbitrary: tr)
  case Nil
  show ?case by simp
next
  case (Cons t0 ts)
  show ?case
  proof (cases "answered t0 \<and> findOne db (candidate t0) \<noteq> None")
    case False
    show ?thesis
    proof
      assume run: "generateUniqueLicenseKey db (t0 # ts) = (Some (Inr key), tr)"
      with False have "answered t0" "findOne db (candidate t0) = None" "candidate t0 = key"
        "tr = [DbFind (candidate t0)]"
        by (auto simp add: generate_Cons split: if_splits)
      then have "t0 # ts = [] @ t0 # ts \<and>
        (\<forall>x \<in> set []. answered x \<and> findOne db (candidate x) \<noteq> None) \<and>
        answered t0 \<and> candidate t0 = key \<and> findOne db key = None \<and>
        tr = map (DbFind \<circ> candidate) ([] @ [t0])"
        by simp
      then show "\<exists>pre t post. t0 # ts = pre @ t # post \<and>
        (\<forall>x \<in> set pre. answered x \<and> findOne db (candidate x) \<noteq> None) \<and>
        answered t \<and> candidate t = key \<and> findOne db key = None \<and>
        tr = map (DbFind \<circ> candidate) (pre @ [t])"
        by blast
    next
      assume "\<exists>pre t post. t0 # ts = pre @ t # post \<and>
        (\<forall>x \<in> set pre. answered x \<and> findOne db (candidate x) \<noteq> None) \<and>
        answered t \<and> candidate t = key \<and> findOne db key = None \<and>
        tr = map (DbFind \<circ> candidate) (pre @ [t])"
      then obtain pre t post where w: "t0 # ts = pre @ t # post"
        "\<forall>x \<in> set pre. answered x \<and> findOne db (candidate x) \<noteq> None"
        "answered t" "candidate t = key" "findOne db key = None"
        "tr = map (DbFind \<circ> candidate) (pre @ [t])"
        by blast
      from w(1,2) False have "pre = []"
        by (cases pre) auto
      with w have "t = t0" "tr = [DbFind (candidate t0)]"
        by simp_all
      with w(3,4,5) show "generateUniqueLicenseKey db (t0 # ts) = (Some (Inr key), tr)"
        by (simp add: generate_Cons)
    qed
  next
    case True
    have "generateUniqueLicenseKey db (t0 # ts) = (Some (Inr key), tr) \<longleftrightarrow>
        (\<exists>tr'. tr = DbFind (candidate t0) # tr' \<and>
           generateUniqueLicenseKey db ts = (Some (Inr key), tr'))"
      using True by (auto simp add: generate_Cons prod_eq_iff)
    also have "\<dots> \<longleftrightarrow> (\<exists>tr'. tr = DbFind (candidate t0) # tr' \<and>
        (\<exists>pre t post. ts = pre @ t # post \<and>
        (\<forall>x \<in> set pre. answered x \<and> findOne db (candidate x) \<noteq> None) \<and>
        answered t \<and> candidate t = key \<and> findOne db key = None \<and>
        tr' = map (DbFind \<circ> candidate) (pre @ [t])))"
      by (simp only: Cons.IH)
    also have "\<dots> \<longleftrightarrow> (\<exists>pre t post. t0 # ts = pre @ t # post \<and>
        (\<forall>x \<in> set pre. answered x \<and> findOne db (candidate x) \<noteq> None) \<and>
        answered t \<and> candidate t = key \<and> findOne db key = None \<and>
        tr = map (DbFind \<circ> candidate) (pre @ [t]))"
      (is "?L \<longleftrightarrow> ?R")
    proof
      assume ?L
      then obtain tr' pre t post where w: "tr = DbFind (candidate t0) # tr'" "ts = pre @ t # post"
        "\<forall>x \<in> set pre. answered x \<and> findOne db (candidate x) \<noteq> None"
        "answered t" "candidate t = key" "findOne db key = None"
        "tr' = map (DbFind \<circ> candidate) (pre @ [t])"
        by blast
      with True have "t0 # ts = (t0 # pre) @ t # post \<and>
        (\<forall>x \<in> set (t0 # pre). answered x \<and> findOne db (candidate x) \<noteq> None) \<and>
        answered t \<and> candidate t = key \<and> findOne db key = None \<and>
        tr = map (DbFind \<circ> candidate) ((t0 # pre) @ [t])"
        by simp
      then show ?R by blast
    next
      assume ?R
      then obtain pre t post where w: "t0 # ts = pre @ t # post"
        "\<forall>x \<in> set pre. answered x \<and> findOne db (candidate x) \<noteq> None"
        "answered t" "candidate t = key" "findOne db key = None"
        "tr = map (DbFind \<circ> candidate) (pre @ [t])"
        by blast
      from w(1,4,5) True obtain pre' where pre: "pre = t0 # pre'" "ts = pre' @ t # post"
        by (cases pre) auto
      with w have "tr = DbFind (candidate t0) # map (DbFind \<circ> candidate) (pre' @ [t]) \<and>
        ts = pre' @ t # post \<and>
        (\<forall>x \<in> set pre'. answered x \<and> findOne db (candidate x) \<noteq> None) \<and>
        answered t \<and> candidate t = key \<and> findOne db key = None"
        by simp
      then show ?L by blast
    qed
    finally show ?thesis .
  qed
qed

theorem generateUniqueLicenseKey_returns_witness:
  "generateUniqueLicenseKey (licenses srv_assigned) (turns calm) =
     (Some (Inr ''4FZY-K9X2-ZZZ9''), [DbFind ''ABCD-EFGH-IJKL'', DbFind ''4FZY-K9X2-ZZZ9'']) \<and>
   findOne (licenses srv_assigned) ''ABCD-EFGH-IJKL'' = Some bob_license \<and>
   findOne (licenses srv_assigned) ''4FZY-K9X2-ZZZ9'' = None"
proof -
  define t1 where
    "t1 = \<lparr>draw1 = ''0.abcd1x'', draw2 = ''0.efgh2y'', draw3 = ''0.ijkl3z'', answered = True\<rparr>"
  define t2 where
    "t2 = \<lparr>draw1 = ''0.4fzyo82mvyr'', draw2 = ''0.k9x2b7'', draw3 = ''0.zzz9z'', answered = True\<rparr>"
  define t3 where
    "t3 = \<lparr>draw1 = ''0.q1w2e3'', draw2 = ''0.r4t5y6'', draw3 = ''0.u7i8o9'', answered = True\<rparr>"
  have keys: "candidate t1 = ''ABCD-EFGH-IJKL''" "candidate t2 = ''4FZY-K9X2-ZZZ9''"
    unfolding t1_def t2_def by code_simp+
  have db: "findOne (licenses srv_assigned) ''ABCD-EFGH-IJKL'' = Some bob_license"
    "findOne (licenses srv_assigned) ''4FZY-K9X2-ZZZ9'' = None"
    by (simp_all add: srv_assigned_def findOne_def bob_license_def)
  have "turns calm = [t1] @ t2 # [t3] \<and>
      (\<forall>x \<in> set [t1]. answered x \<and> findOne (licenses srv_assigned) (candidate x) \<noteq> None) \<and>
      answered t2 \<and> candidate t2 = ''4FZY-K9X2-ZZZ9'' \<and>
      findOne (licenses srv_assigned) ''4FZY-K9X2-ZZZ9'' = None \<and>
      [DbFind ''ABCD-EFGH-IJKL'', DbFind ''4FZY-K9X2-ZZZ9''] = map (DbFind \<circ> candidate) ([t1] @ [t2])"
    by (simp add: keys db) (simp add: calm_def t1_def t2_def t3_def)
  then have "\<exists>pre t post. turns calm = pre @ t # post \<and>
      (\<forall>x \<in> set pre. answered x \<and> findOne (licenses srv_assigned) (candidate x) \<noteq> None) \<and>
      answered t \<and> candidate t = ''4FZY-K9X2-ZZZ9'' \<and>
      findOne (licenses srv_assigned) ''4FZY-K9X2-ZZZ9'' = None \<and>
      [DbFind ''ABCD-EFGH-IJKL'', DbFind ''4FZY-K9X2-ZZZ9''] = map (DbFind \<circ> candidate) (pre @ [t])"
    by - (rule exI [where x = "[t1]"], rule exI [where x = t2], rule exI [where x = "[t3]"])
  with generateUniqueLicenseKey_returns [of "licenses srv_assigned" "turns calm"
      "''4FZY-K9X2-ZZZ9''" "[DbFind ''ABCD-EFGH-IJKL'', DbFind ''4FZY-K9X2-ZZZ9'']"] db
  show ?thesis by simp
qed

text \<open>
  The length of a key is fixed by the lengths of the three draws: a segment has four
  characters only when the draw has at least four characters after \<^verbatim>\<open>0.\<close>.
\<close>

lemma make_key_length:
  "length (make_key d1 d2 d3) =
     min 4 (length d1 - 2) + min 4 (length d2 - 2) + min 4 (length d3 - 2) + 2"
  by (simp add: make_key_def segment_def toUpperCase_def substring_def min.commute)

lemma make_key_14:
  "length (make_key d1 d2 d3) = 14 \<longleftrightarrow> 6 \<le> length d1 \<and> 6 \<le> length d2 \<and> 6 \<le> length d3"
  unfolding make_key_length by auto

text \<open>
  Claim C3. The doc comment of \<^verbatim>\<open>generateUniqueLicenseKey\<close> and the claim promise a key
  of 14 characters in three groups of four for every sequence of draws. When
  \<^verbatim>\<open>Math.random()\<close> returns 0.5, \<^verbatim>\<open>toString(36)\<close> is \<^verbatim>\<open>0.i\<close>,
  \<^verbatim>\<open>substring(2, 6)\<close> of it is the single character \<^verbatim>\<open>i\<close>, and three such draws give
  the key \<^verbatim>\<open>I-I-I\<close> of 5 characters, which the loop returns on an empty collection.
\<close>

theorem short_draw_short_key:
  "make_key ''0.i'' ''0.i'' ''0.i'' = ''I-I-I'' \<and>
   length (make_key ''0.i'' ''0.i'' ''0.i'') = 5 \<and>
   generateUniqueLicenseKey []
       [\<lparr>draw1 = ''0.i'', draw2 = ''0.i'', draw3 = ''0.i'', answered = True\<rparr>] =
     (Some (Inr ''I-I-I''), [DbFind ''I-I-I''])"
  by code_simp

section \<open>Issuing a license\<close>











subsection \<open>Marking the user ID as used\<close>

















end
